theory Spec2Isabelle
  imports Complex_Main "HOL-Library.Log_Nat"
begin

section \<open>The window resizer: data model\<close>

text \<open>
  The extension (\<^verbatim>\<open>src/extension.js\<close>) cycles the focused window through a fixed list
  of sizes and centres a window on its work area. The host hands out rectangles whose
  four fields are machine integers, and the scale factor of the stage is an integer as
  well; sums, differences, products and comparisons of such values are exact in
  JavaScript's number type, so they are modelled by \<open>int\<close>. Where the code divides,
  the results are rationals: halves in \<^verbatim>\<open>_centerWindow\<close>, which are exact as well, and
  rounded quotients in \<^verbatim>\<open>_notifySizeChange\<close>.
\<close>

record rectangle =
  rect_x :: int
  rect_y :: int
  rect_width :: int
  rect_height :: int

text \<open>The class field \<^verbatim>\<open>SIZES\<close> (lines 27-32).\<close>

definition SIZES :: "(int \<times> int) list" where
  "SIZES = [(1280, 720), (1280, 900), (1440, 900), (1600, 900)]"

text \<open>
  A JavaScript number as far as the index computation of line 100 needs it: an integer
  or \<^verbatim>\<open>NaN\<close>. (The negative zero that \<^verbatim>\<open>-1 % 1\<close> yields is read by \<^verbatim>\<open>Array.prototype.at\<close>
  as \<open>0\<close>, so it is not kept apart from \<open>Num 0\<close>.)
\<close>

datatype jsnum = NaN | Num int

datatype js_error = TypeError

text \<open>What the handlers ask of the host, in the order of the calls.\<close>

datatype 'n host_call =
    Unmaximize
  | Connect_size_changed
  | Move_resize_frame bool 'n 'n 'n 'n

section \<open>Cycling through the sizes\<close>

text \<open>
  Lines 81-82: every size is multiplied by the scale factor, and the sizes that do not
  fit the work area are dropped.
\<close>

definition scale_sizes :: "(int \<times> int) list \<Rightarrow> int \<Rightarrow> rectangle \<Rightarrow> (int \<times> int) list" where
  "scale_sizes sizes scaleFactor workArea =
     filter (\<lambda>(w, h). w \<le> rect_width workArea \<and> h \<le> rect_height workArea)
       (map (\<lambda>(w, h). (w * scaleFactor, h * scaleFactor)) sizes)"

definition scaledSizes :: "int \<Rightarrow> rectangle \<Rightarrow> (int \<times> int) list" where
  "scaledSizes scaleFactor workArea = scale_sizes SIZES scaleFactor workArea"

text \<open>Line 92: the error of one candidate against the current frame.\<close>

definition size_error :: "rectangle \<Rightarrow> int \<times> int \<Rightarrow> int" where
  "size_error outerRect c =
     (case c of (width, height) \<Rightarrow>
        \<bar>width - rect_width outerRect\<bar> + \<bar>height - rect_height outerRect\<bar>)"

text \<open>
  Lines 85-97: the loop over the indices of \<^verbatim>\<open>scaledSizes\<close>. The pair carried along is
  (\<^verbatim>\<open>nearestIndex\<close>, \<^verbatim>\<open>nearestError\<close>); \<open>None\<close> stands for both being \<^verbatim>\<open>undefined\<close>.
\<close>

function nearest_loop ::
  "(int \<times> int) list \<Rightarrow> rectangle \<Rightarrow> nat \<Rightarrow> (nat \<times> int) option \<Rightarrow> (nat \<times> int) option" where
  "nearest_loop scaled outerRect i nearest =
     (if i < length scaled then
        (let error = size_error outerRect (scaled ! i)
         in nearest_loop scaled outerRect (i + 1)
              (case nearest of
                 None \<Rightarrow> Some (i, error)
               | Some (nearestIndex, nearestError) \<Rightarrow>
                   if error < nearestError then Some (i, error) else nearest))
      else nearest)"
  by pat_completeness auto
termination
  by (relation "measure (\<lambda>(scaled, outerRect, i, nearest). length scaled - i)") auto

declare nearest_loop.simps [simp del]

definition nearestIndex :: "(int \<times> int) list \<Rightarrow> rectangle \<Rightarrow> nat option" where
  "nearestIndex scaled outerRect = map_option fst (nearest_loop scaled outerRect 0 None)"

text \<open>
  The operands of line 100. \<^verbatim>\<open>undefined + 1\<close> is \<^verbatim>\<open>NaN\<close>; \<^verbatim>\<open>%\<close> is the remainder that
  takes the sign of the dividend, and is \<^verbatim>\<open>NaN\<close> for a zero divisor.
\<close>

definition js_step :: "nat option \<Rightarrow> bool \<Rightarrow> jsnum" where
  "js_step nearest backwards =
     (case nearest of
        None \<Rightarrow> NaN
      | Some i \<Rightarrow> Num (int i + (if backwards then - 1 else 1)))"

definition js_rem :: "jsnum \<Rightarrow> nat \<Rightarrow> jsnum" where
  "js_rem a n =
     (case a of
        NaN \<Rightarrow> NaN
      | Num i \<Rightarrow> if n = 0 then NaN else Num (sgn i * (\<bar>i\<bar> mod int n)))"

definition newIndex :: "(int \<times> int) list \<Rightarrow> rectangle \<Rightarrow> bool \<Rightarrow> jsnum" where
  "newIndex scaled outerRect backwards =
     js_rem (js_step (nearestIndex scaled outerRect) backwards) (length scaled)"

text \<open>
  \<^verbatim>\<open>Array.prototype.at\<close> (line 101): \<^verbatim>\<open>NaN\<close> counts as \<open>0\<close>, a negative index counts from
  the end, and an index outside the array gives \<^verbatim>\<open>undefined\<close>.
\<close>

definition js_at :: "'a list \<Rightarrow> jsnum \<Rightarrow> 'a option" where
  "js_at xs k =
     (let relative = (case k of NaN \<Rightarrow> 0 | Num i \<Rightarrow> i);
          len = int (length xs);
          j = (if 0 \<le> relative then relative else len + relative)
      in if j < 0 \<or> len \<le> j then None else Some (xs ! nat j))"

text \<open>Lines 104-109, one axis: the window is pushed back if its far edge would leave the work area.\<close>

definition push_onscreen :: "int \<Rightarrow> int \<Rightarrow> int \<Rightarrow> int \<Rightarrow> int" where
  "push_onscreen pos newExtent areaPos areaExtent =
     (if pos + newExtent > areaPos + areaExtent
      then max areaPos (areaPos + areaExtent - newExtent)
      else pos)"

text \<open>
  Lines 85-109 on a given candidate list: the frame that line 115 requests, or the
  \<^verbatim>\<open>TypeError\<close> that destructuring \<^verbatim>\<open>undefined\<close> raises on line 101.
\<close>

definition cycle :: "(int \<times> int) list \<Rightarrow> rectangle \<Rightarrow> rectangle \<Rightarrow> bool \<Rightarrow> js_error + rectangle" where
  "cycle scaled outerRect workArea backwards =
     (case js_at scaled (newIndex scaled outerRect backwards) of
        None \<Rightarrow> Inl TypeError
      | Some (newWidth, newHeight) \<Rightarrow>
          Inr \<lparr>rect_x = push_onscreen (rect_x outerRect) newWidth (rect_x workArea) (rect_width workArea),
               rect_y = push_onscreen (rect_y outerRect) newHeight (rect_y workArea) (rect_height workArea),
               rect_width = newWidth,
               rect_height = newHeight\<rparr>)"

text \<open>
  \<^verbatim>\<open>_cycleWindowSizes\<close> (lines 69-116). \<open>maximized\<close> is what \<^verbatim>\<open>window.get_maximized()\<close>
  returns on line 73; \<open>workArea\<close> and \<open>outerRect\<close> are what the host returns on lines
  76-77, after the unmaximize. The result is the list of host calls made and whether the
  handler returned or threw.
\<close>

definition cycleWindowSizes ::
  "bool \<Rightarrow> int \<Rightarrow> rectangle \<Rightarrow> rectangle \<Rightarrow> int \<Rightarrow> int host_call list \<times> (js_error + unit)" where
  "cycleWindowSizes backwards maximized workArea outerRect scaleFactor =
     (let unmax = (if maximized \<noteq> 0 then [Unmaximize] else [])
      in case cycle (scaledSizes scaleFactor workArea) outerRect workArea backwards of
           Inl e \<Rightarrow> (unmax, Inl e)
         | Inr new \<Rightarrow>
             (unmax @ [Connect_size_changed,
                       Move_resize_frame True (rect_x new) (rect_y new) (rect_width new) (rect_height new)],
              Inr ()))"

section \<open>Centring\<close>

text \<open>
  \<^verbatim>\<open>_centerWindow\<close> (lines 144-161). The halves of integers are exact JavaScript numbers,
  so the division is the one of \<open>rat\<close>.
\<close>

definition center :: "rectangle \<Rightarrow> rectangle \<Rightarrow> rat \<times> rat" where
  "center outerRect workArea =
     (of_int (rect_x workArea) + of_int (rect_width workArea - rect_width outerRect) / 2,
      of_int (rect_y workArea) + of_int (rect_height workArea - rect_height outerRect) / 2)"

definition centerWindow :: "int \<Rightarrow> rectangle \<Rightarrow> rectangle \<Rightarrow> rat host_call list" where
  "centerWindow maximized workArea outerRect =
     (let unmax = (if maximized \<noteq> 0 then [Unmaximize] else []);
          (newX, newY) = center outerRect workArea
      in unmax @ [Connect_size_changed,
                  Move_resize_frame True newX newY
                    (of_int (rect_width outerRect)) (of_int (rect_height outerRect))])"

section \<open>The notification\<close>

text \<open>
  \<^verbatim>\<open>_notifySizeChange\<close> (lines 121-136) divides, and the quotients are in general not
  exact: a JavaScript number is a binary64 value, and every operation yields the exact
  result rounded to the nearest such value, ties going to the even significand. A finite
  binary64 value is modelled by the rational it denotes, and \<open>to_double\<close> rounds a
  rational to 53 significant bits. (Overflow and subnormal values are left out: the
  quotients and differences formed here from machine integers are far from both.)

  \<open>exponent_of q\<close> is, for positive \<open>q\<close>, the \<open>e\<close> with \<open>2^e \<le> q < 2^(e+1)\<close>.
\<close>

definition exponent_of :: "rat \<Rightarrow> int" where
  "exponent_of q =
     (if 1 \<le> q then int (floorlog 2 (nat \<lfloor>q\<rfloor>)) - 1
      else - int (floorlog 2 (nat (\<lceil>1 / q\<rceil> - 1))))"

definition round_half_even :: "rat \<Rightarrow> int" where
  "round_half_even q =
     (let f = \<lfloor>q\<rfloor>; r = q - of_int f
      in if r < 1 / 2 then f else if 1 / 2 < r then f + 1 else if even f then f else f + 1)"

definition to_double :: "rat \<Rightarrow> rat" where
  "to_double q =
     (if q = 0 then 0
      else let ulp = 2 powi (exponent_of \<bar>q\<bar> - 52)
           in sgn q * of_int (round_half_even (\<bar>q\<bar> / ulp)) * ulp)"

text \<open>
  The results of the operations used on lines 125-132, with the infinities and \<^verbatim>\<open>NaN\<close>
  that a division by zero gives. The second operand of the subtraction and of the
  comparison is a finite constant.
\<close>

datatype js_float = Finite rat | PosInfinity | NegInfinity | NotANumber

definition js_div :: "rat \<Rightarrow> rat \<Rightarrow> js_float" where
  "js_div a b =
     (if b = 0 then (if a = 0 then NotANumber else if 0 < a then PosInfinity else NegInfinity)
      else Finite (to_double (a / b)))"

definition js_sub :: "js_float \<Rightarrow> rat \<Rightarrow> js_float" where
  "js_sub a c = (case a of Finite q \<Rightarrow> Finite (to_double (q - c)) | _ \<Rightarrow> a)"

definition js_abs :: "js_float \<Rightarrow> js_float" where
  "js_abs a = (case a of Finite q \<Rightarrow> Finite \<bar>q\<bar> | NegInfinity \<Rightarrow> PosInfinity | _ \<Rightarrow> a)"

definition js_greater :: "js_float \<Rightarrow> rat \<Rightarrow> bool" where
  "js_greater a c = (case a of Finite q \<Rightarrow> c < q | PosInfinity \<Rightarrow> True | _ \<Rightarrow> False)"

text \<open>
  What \<^verbatim>\<open>_notifySizeChange\<close> hands to the host's \<^verbatim>\<open>format\<close>: the two arguments of
  \<^verbatim>\<open>'%dx%d'\<close> (lines 124-126), and the argument of \<^verbatim>\<open>' (%.2f:9)'\<close> when the
  suffix is appended (lines 131-133), \<open>None\<close> when it is not. \<open>9 * width\<close> is an integer
  and exact; \<^verbatim>\<open>0.01\<close> is the binary64 value nearest to one hundredth.
\<close>

definition notifySizeChange :: "int \<Rightarrow> rectangle \<Rightarrow> (js_float \<times> js_float) \<times> js_float option" where
  "notifySizeChange scaleFactor newOuterRect =
     (let actualNumerator = js_div (of_int (9 * rect_width newOuterRect)) (of_int (rect_height newOuterRect))
      in ((js_div (of_int (rect_width newOuterRect)) (of_int scaleFactor),
           js_div (of_int (rect_height newOuterRect)) (of_int scaleFactor)),
          if js_greater (js_abs (js_sub actualNumerator 16)) (to_double (1 / 100))
          then Some actualNumerator else None))"

section \<open>The nearest-match search\<close>

lemma nearest_loop_done: "length scaled \<le> i \<Longrightarrow> nearest_loop scaled outerRect i nearest = nearest"
  by (subst nearest_loop.simps) simp

lemma nearest_loop_inv:
  assumes "i \<le> length cs"
    and "case acc of
           None \<Rightarrow> i = 0
         | Some (k, e) \<Rightarrow> k < i \<and> e = size_error r (cs ! k)
             \<and> (\<forall>j<i. e \<le> size_error r (cs ! j)) \<and> (\<forall>j<k. e < size_error r (cs ! j))"
  shows "case nearest_loop cs r i acc of
           None \<Rightarrow> cs = []
         | Some (k, e) \<Rightarrow> k < length cs \<and> e = size_error r (cs ! k)
             \<and> (\<forall>j<length cs. e \<le> size_error r (cs ! j)) \<and> (\<forall>j<k. e < size_error r (cs ! j))"
  using assms
proof (induction cs r i acc rule: nearest_loop.induct)
  case (1 scaled outerRect i nearest)
  show ?case
  proof (cases "i < length scaled")
    case False
    with "1.prems" have "i = length scaled" by simp
    with "1.prems" False show ?thesis
      by (subst nearest_loop.simps) (auto split: option.splits)
  next
    case True
    define err where "err = size_error outerRect (scaled ! i)"
    define nxt where "nxt = (case nearest of
                 None \<Rightarrow> Some (i, err)
               | Some (k0, e0) \<Rightarrow>
                   if err < e0 then Some (i, err) else nearest)"
    have step: "nearest_loop scaled outerRect i nearest = nearest_loop scaled outerRect (i + 1) nxt"
      unfolding nxt_def err_def using True by (subst nearest_loop.simps) (simp add: Let_def)
    have inv: "case nxt of
           None \<Rightarrow> i + 1 = 0
         | Some (k, e) \<Rightarrow> k < i + 1 \<and> e = size_error outerRect (scaled ! k)
             \<and> (\<forall>j<i + 1. e \<le> size_error outerRect (scaled ! j))
             \<and> (\<forall>j<k. e < size_error outerRect (scaled ! j))"
    proof (cases nearest)
      case None
      with "1.prems" have "i = 0" by simp
      with None show ?thesis by (simp add: nxt_def err_def)
    next
      case (Some p)
      obtain k e where p: "p = (k, e)" by (cases p)
      from "1.prems"(2) Some p have old: "k < i" "e = size_error outerRect (scaled ! k)"
        "\<forall>j<i. e \<le> size_error outerRect (scaled ! j)" "\<forall>j<k. e < size_error outerRect (scaled ! j)"
        by auto
      show ?thesis
      proof (cases "err < e")
        case True
        have "\<forall>j<i + 1. err \<le> size_error outerRect (scaled ! j)"
          using old(3) True by (auto simp: less_Suc_eq err_def)
        moreover have "\<forall>j<i. err < size_error outerRect (scaled ! j)"
          using old(3) True by force
        ultimately show ?thesis using Some p True by (simp add: nxt_def err_def)
      next
        case False
        have "\<forall>j<i + 1. e \<le> size_error outerRect (scaled ! j)"
          using old(3) False by (auto simp: less_Suc_eq err_def)
        then show ?thesis using Some p False old by (simp add: nxt_def)
      qed
    qed
    have "i + 1 \<le> length scaled" using True by simp
    have "i + 1 \<le> length scaled" using True by simp
    from "1.IH"[OF True refl this] inv
    show ?thesis unfolding step nxt_def err_def by simp
  qed
qed


lemma nearestIndex_least_argmin:
  assumes "scaled \<noteq> []"
  shows "\<exists>k. nearestIndex scaled outerRect = Some k \<and> k < length scaled
           \<and> (\<forall>j<length scaled. size_error outerRect (scaled ! k) \<le> size_error outerRect (scaled ! j))
           \<and> (\<forall>j<k. size_error outerRect (scaled ! k) < size_error outerRect (scaled ! j))"
proof -
  have "case nearest_loop scaled outerRect 0 None of
           None \<Rightarrow> scaled = []
         | Some (k, e) \<Rightarrow> k < length scaled \<and> e = size_error outerRect (scaled ! k)
             \<and> (\<forall>j<length scaled. e \<le> size_error outerRect (scaled ! j))
             \<and> (\<forall>j<k. e < size_error outerRect (scaled ! j))"
    by (rule nearest_loop_inv) simp_all
  with assms show ?thesis
    by (auto simp: nearestIndex_def split: option.splits)
qed

lemma nearestIndex_empty: "nearestIndex [] outerRect = None"
  by (simp add: nearestIndex_def nearest_loop_done)

text \<open>
  Claim C3. On a non-empty candidate list the search returns an index \<open>k\<close> of the list
  whose Manhattan error \<open>|width - outerRect.width| + |height - outerRect.height|\<close> is
  minimal over all candidates, and every candidate with the same error stands at \<open>k\<close>
  or later: among equally near candidates the earliest one is taken.
\<close>

theorem nearest_match_minimal_earliest:
  assumes "scaled \<noteq> []"
  shows "\<exists>k. nearestIndex scaled outerRect = Some k \<and> k < length scaled
           \<and> (\<forall>j<length scaled.
                 \<bar>fst (scaled ! k) - rect_width outerRect\<bar> + \<bar>snd (scaled ! k) - rect_height outerRect\<bar>
                   \<le> \<bar>fst (scaled ! j) - rect_width outerRect\<bar> + \<bar>snd (scaled ! j) - rect_height outerRect\<bar>)
           \<and> (\<forall>j<length scaled.
                 \<bar>fst (scaled ! j) - rect_width outerRect\<bar> + \<bar>snd (scaled ! j) - rect_height outerRect\<bar>
                   = \<bar>fst (scaled ! k) - rect_width outerRect\<bar> + \<bar>snd (scaled ! k) - rect_height outerRect\<bar>
                 \<longrightarrow> k \<le> j)"
proof -
  have err: "size_error outerRect c = \<bar>fst c - rect_width outerRect\<bar> + \<bar>snd c - rect_height outerRect\<bar>" for c
    by (simp add: size_error_def split: prod.splits)
  from nearestIndex_least_argmin [OF assms, of outerRect] obtain k where
    k: "nearestIndex scaled outerRect = Some k" "k < length scaled"
      "\<forall>j<length scaled. size_error outerRect (scaled ! k) \<le> size_error outerRect (scaled ! j)"
      "\<forall>j<k. size_error outerRect (scaled ! k) < size_error outerRect (scaled ! j)"
    by blast
  have "k \<le> j" if "size_error outerRect (scaled ! j) = size_error outerRect (scaled ! k)" for j
  proof (rule ccontr)
    assume "\<not> k \<le> j"
    then have "j < k" by simp
    with k(4) that show False by auto
  qed
  with k(1,2,3) show ?thesis unfolding err by blast
qed

text \<open>
  A frame of 1360 by 900 is 80 away from both 1280 by 900 (index 1) and 1440 by 900
  (index 2); the search answers 1.
\<close>

theorem nearest_match_minimal_earliest_witness:
  "SIZES \<noteq> [] \<and>
   nearestIndex SIZES \<lparr>rect_x = 0, rect_y = 0, rect_width = 1360, rect_height = 900\<rparr> = Some 1 \<and>
   \<bar>fst (SIZES ! 1) - 1360\<bar> + \<bar>snd (SIZES ! 1) - 900\<bar> \<le> \<bar>fst (SIZES ! 0) - 1360\<bar> + \<bar>snd (SIZES ! 0) - 900\<bar> \<and>
   \<bar>fst (SIZES ! 1) - 1360\<bar> + \<bar>snd (SIZES ! 1) - 900\<bar> \<le> \<bar>fst (SIZES ! 2) - 1360\<bar> + \<bar>snd (SIZES ! 2) - 900\<bar> \<and>
   \<bar>fst (SIZES ! 1) - 1360\<bar> + \<bar>snd (SIZES ! 1) - 900\<bar> \<le> \<bar>fst (SIZES ! 3) - 1360\<bar> + \<bar>snd (SIZES ! 3) - 900\<bar> \<and>
   \<bar>fst (SIZES ! 2) - 1360\<bar> + \<bar>snd (SIZES ! 2) - 900\<bar> = \<bar>fst (SIZES ! 1) - 1360\<bar> + \<bar>snd (SIZES ! 1) - 900\<bar>"
proof -
  let ?r = "\<lparr>rect_x = 0, rect_y = 0, rect_width = 1360, rect_height = 900\<rparr>"
  have ne: "SIZES \<noteq> []" by (simp add: SIZES_def)
  have len: "length SIZES = 4" by (simp add: SIZES_def)
  have one: "nearestIndex SIZES ?r = Some 1"
    by (simp add: nearestIndex_def SIZES_def nearest_loop.simps size_error_def)
  from nearest_match_minimal_earliest [OF ne, of ?r] obtain k where
    k: "nearestIndex SIZES ?r = Some k"
    "\<forall>j<length SIZES.
       \<bar>fst (SIZES ! k) - rect_width ?r\<bar> + \<bar>snd (SIZES ! k) - rect_height ?r\<bar>
         \<le> \<bar>fst (SIZES ! j) - rect_width ?r\<bar> + \<bar>snd (SIZES ! j) - rect_height ?r\<bar>"
    by blast
  from k(1) one have "k = 1" by simp
  with k(2) len have le: "\<forall>j<4. \<bar>fst (SIZES ! 1) - 1360\<bar> + \<bar>snd (SIZES ! 1) - 900\<bar>
                        \<le> \<bar>fst (SIZES ! j) - 1360\<bar> + \<bar>snd (SIZES ! j) - 900\<bar>"
    by simp
  have "\<bar>fst (SIZES ! 1) - 1360\<bar> + \<bar>snd (SIZES ! 1) - 900\<bar> \<le> \<bar>fst (SIZES ! 0) - 1360\<bar> + \<bar>snd (SIZES ! 0) - 900\<bar>"
    using le by (rule allE [of _ 0]) simp
  moreover have "\<bar>fst (SIZES ! 1) - 1360\<bar> + \<bar>snd (SIZES ! 1) - 900\<bar> \<le> \<bar>fst (SIZES ! 2) - 1360\<bar> + \<bar>snd (SIZES ! 2) - 900\<bar>"
    using le by (rule allE [of _ 2]) simp
  moreover have "\<bar>fst (SIZES ! 1) - 1360\<bar> + \<bar>snd (SIZES ! 1) - 900\<bar> \<le> \<bar>fst (SIZES ! 3) - 1360\<bar> + \<bar>snd (SIZES ! 3) - 900\<bar>"
    using le by (rule allE [of _ 3]) simp
  moreover have "\<bar>fst (SIZES ! 2) - 1360\<bar> + \<bar>snd (SIZES ! 2) - 900\<bar> = \<bar>fst (SIZES ! 1) - 1360\<bar> + \<bar>snd (SIZES ! 1) - 900\<bar>"
    by (simp add: SIZES_def)
  ultimately show ?thesis using ne one by blast
qed

section \<open>The cyclic advance\<close>

lemma js_at_advance:
  assumes "k < length xs"
  shows "js_at xs (js_rem (js_step (Some k) backwards) (length xs))
           = Some (xs ! nat ((int k + (if backwards then - 1 else 1)) mod int (length xs)))"
proof -
  define n where "n = int (length xs)"
  define m where "m = int k + (if backwards then - 1 else 1)"
  have n: "0 < n" "length xs \<noteq> 0" using assms by (auto simp: n_def)
  have range: "0 \<le> m mod n" "m mod n < n" using n by simp_all
  have step: "js_rem (js_step (Some k) backwards) (length xs) = Num (sgn m * (\<bar>m\<bar> mod n))"
    using n(2) by (simp add: js_rem_def js_step_def m_def n_def)
  show ?thesis
  proof (cases "m < 0")
    case False
    then have "sgn m * (\<bar>m\<bar> mod n) = m mod n"
      by (cases "m = 0") simp_all
    with range show ?thesis
      unfolding step m_def[symmetric] n_def[symmetric]
      by (simp add: js_at_def n_def[symmetric])
  next
    case True
    then have m: "m = - 1" by (auto simp: m_def split: if_splits)
    show ?thesis
    proof (cases "n = 1")
      case True
      with m show ?thesis
        unfolding step m_def[symmetric] n_def[symmetric]
        by (simp add: js_at_def n_def[symmetric])
    next
      case False
      with n have "1 < n" by simp
      then have "(1::int) mod n = 1" by simp
      moreover have "(- 1) mod n = n - 1" using n(1) by (rule zmod_minus1)
      ultimately show ?thesis using \<open>1 < n\<close>
        unfolding step m_def[symmetric] n_def[symmetric] m
        by (simp add: js_at_def n_def[symmetric])
    qed
  qed
qed

lemma cycle_selects:
  assumes "nearestIndex scaled outerRect = Some k" and "k < length scaled"
  shows "js_at scaled (newIndex scaled outerRect backwards)
           = Some (scaled ! nat ((int k + (if backwards then - 1 else 1)) mod int (length scaled)))"
  unfolding newIndex_def assms(1) by (rule js_at_advance [OF assms(2)])


text \<open>
  Going backward from the first of several candidates, the remainder of line 100 is
  \<open>-1\<close>, not \<open>length - 1\<close>; it is \<^verbatim>\<open>at\<close> that turns it into the last position.
\<close>

lemma newIndex_backward_from_first:
  assumes "nearestIndex scaled outerRect = Some 0" and "1 < length scaled"
  shows "newIndex scaled outerRect True = Num (- 1)"
proof -
  from assms(2) have one: "(1::int) mod int (length scaled) = 1" by simp
  from assms(2) have ne: "scaled \<noteq> []" by (cases scaled) simp_all
  show ?thesis
    unfolding newIndex_def assms(1) using one ne by (simp add: js_step_def js_rem_def)
qed

lemma cycle_nonempty:
  assumes "nearestIndex scaled outerRect = Some k" and "k < length scaled"
  shows "cycle scaled outerRect workArea backwards =
           (case scaled ! nat ((int k + (if backwards then - 1 else 1)) mod int (length scaled)) of
              (newWidth, newHeight) \<Rightarrow>
                Inr \<lparr>rect_x = push_onscreen (rect_x outerRect) newWidth (rect_x workArea) (rect_width workArea),
                     rect_y = push_onscreen (rect_y outerRect) newHeight (rect_y workArea) (rect_height workArea),
                     rect_width = newWidth, rect_height = newHeight\<rparr>)"
  unfolding cycle_def cycle_selects [OF assms] by simp

lemma cycle_empty: "cycle [] outerRect workArea backwards = Inl TypeError"
  by (simp add: cycle_def newIndex_def nearestIndex_empty js_step_def js_rem_def js_at_def)

text \<open>
  Claim C4. With \<open>n\<close> candidates and nearest index \<open>k\<close>, the candidate that line 101 reads
  is the one at position \<open>(k + 1) mod n\<close> going forward and \<open>(k - 1) mod n\<close> going backward,
  \<open>mod\<close> being the non-negative remainder: forward from the last position it is the
  candidate at position 0, backward from position 0 it is the last candidate. (The
  number held by \<^verbatim>\<open>newIndex\<close> in the second case is \<open>-1\<close>; \<^verbatim>\<open>at\<close> reads it from the end.)
\<close>

theorem cyclic_advance_wraps:
  assumes "scaled \<noteq> []" and "nearestIndex scaled outerRect = Some k"
  shows "k < length scaled
       \<and> js_at scaled (newIndex scaled outerRect False) = Some (scaled ! nat ((int k + 1) mod int (length scaled)))
       \<and> js_at scaled (newIndex scaled outerRect True) = Some (scaled ! nat ((int k - 1) mod int (length scaled)))
       \<and> 0 \<le> (int k + 1) mod int (length scaled) \<and> 0 \<le> (int k - 1) mod int (length scaled)
       \<and> (k = length scaled - 1 \<longrightarrow> js_at scaled (newIndex scaled outerRect False) = Some (scaled ! 0))
       \<and> (k = 0 \<longrightarrow> js_at scaled (newIndex scaled outerRect True) = Some (scaled ! (length scaled - 1)))"
proof -
  from nearestIndex_least_argmin [OF assms(1), of outerRect] assms(2)
  have k: "k < length scaled" by auto
  have n: "0 < int (length scaled)" using assms(1) by simp
  have fwd: "js_at scaled (newIndex scaled outerRect False) = Some (scaled ! nat ((int k + 1) mod int (length scaled)))"
    using cycle_selects [OF assms(2) k, of False] by simp
  have bwd: "js_at scaled (newIndex scaled outerRect True) = Some (scaled ! nat ((int k - 1) mod int (length scaled)))"
    using cycle_selects [OF assms(2) k, of True] by simp
  have last: "nat ((int k + 1) mod int (length scaled)) = 0" if "k = length scaled - 1"
  proof -
    from that k have "int k + 1 = int (length scaled)" by simp
    then show ?thesis by simp
  qed
  have first: "nat ((int k - 1) mod int (length scaled)) = length scaled - 1" if "k = 0"
  proof -
    have "(- 1) mod int (length scaled) = int (length scaled) - 1" using n by (rule zmod_minus1)
    with that show ?thesis by simp
  qed
  from n have "0 \<le> (int k + 1) mod int (length scaled)" "0 \<le> (int k - 1) mod int (length scaled)"
    by simp_all
  with k fwd bwd last first show ?thesis by simp
qed

text \<open>
  On the four sizes: forward from the last one gives the first, backward from the first
  gives the last.
\<close>

theorem cyclic_advance_wraps_witness:
  "js_at SIZES (newIndex SIZES \<lparr>rect_x = 0, rect_y = 0, rect_width = 1600, rect_height = 900\<rparr> False) = Some (1280, 720)
   \<and> js_at SIZES (newIndex SIZES \<lparr>rect_x = 0, rect_y = 0, rect_width = 1280, rect_height = 720\<rparr> True) = Some (1600, 900)"
proof -
  have a: "nearestIndex SIZES \<lparr>rect_x = 0, rect_y = 0, rect_width = 1600, rect_height = 900\<rparr> = Some 3"
    by (simp add: nearestIndex_def SIZES_def nearest_loop.simps size_error_def)
  have b: "nearestIndex SIZES \<lparr>rect_x = 0, rect_y = 0, rect_width = 1280, rect_height = 720\<rparr> = Some 0"
    by (simp add: nearestIndex_def SIZES_def nearest_loop.simps size_error_def)
  have ne: "SIZES \<noteq> []" by (simp add: SIZES_def)
  from cyclic_advance_wraps [OF ne a] cyclic_advance_wraps [OF ne b]
  show ?thesis by (simp add: SIZES_def)
qed

text \<open>
  Claim C10. When exactly one scaled size fits the work area, the handler asks for that
  size in either direction.
\<close>

theorem single_candidate_any_direction:
  assumes "scaledSizes scaleFactor workArea = [c]"
  shows "\<exists>newX newY.
           cycleWindowSizes backwards maximized workArea outerRect scaleFactor =
             ((if maximized \<noteq> 0 then [Unmaximize] else [])
                @ [Connect_size_changed, Move_resize_frame True newX newY (fst c) (snd c)], Inr ())"
proof -
  from nearestIndex_least_argmin [of "[c]" outerRect]
  have k: "nearestIndex [c] outerRect = Some 0" by auto
  have "cycle [c] outerRect workArea backwards =
          Inr \<lparr>rect_x = push_onscreen (rect_x outerRect) (fst c) (rect_x workArea) (rect_width workArea),
               rect_y = push_onscreen (rect_y outerRect) (snd c) (rect_y workArea) (rect_height workArea),
               rect_width = fst c, rect_height = snd c\<rparr>"
    by (subst cycle_nonempty [OF k]) (simp_all split: prod.splits)
  then show ?thesis by (simp add: cycleWindowSizes_def assms)
qed

theorem single_candidate_any_direction_witness:
  "scaledSizes 1 \<lparr>rect_x = 0, rect_y = 0, rect_width = 1300, rect_height = 800\<rparr> = [(1280, 720)]
   \<and> (\<exists>newX newY.
        cycleWindowSizes True 0 \<lparr>rect_x = 0, rect_y = 0, rect_width = 1300, rect_height = 800\<rparr>
          \<lparr>rect_x = 10, rect_y = 20, rect_width = 640, rect_height = 480\<rparr> 1
        = ([Connect_size_changed, Move_resize_frame True newX newY 1280 720], Inr ()))"
proof -
  have s: "scaledSizes 1 \<lparr>rect_x = 0, rect_y = 0, rect_width = 1300, rect_height = 800\<rparr> = [(1280, 720)]"
    by (simp add: scaledSizes_def scale_sizes_def SIZES_def)
  from single_candidate_any_direction [OF s, of True 0 "\<lparr>rect_x = 10, rect_y = 20, rect_width = 640, rect_height = 480\<rparr>"] s
  show ?thesis by simp
qed

lemma size_error_zero_iff:
  "size_error outerRect c = 0 \<longleftrightarrow> c = (rect_width outerRect, rect_height outerRect)"
  by (cases c) (auto simp: size_error_def)

lemma size_error_nonneg: "0 \<le> size_error outerRect c"
  by (cases c) (simp add: size_error_def)

lemma nearestIndex_exact:
  assumes "distinct scaled" and "j < length scaled"
    and "scaled ! j = (rect_width outerRect, rect_height outerRect)"
  shows "nearestIndex scaled outerRect = Some j"
proof -
  from assms(2) have ne: "scaled \<noteq> []" by auto
  from nearestIndex_least_argmin [OF ne, of outerRect] obtain k where
    k: "nearestIndex scaled outerRect = Some k" "k < length scaled"
      "\<forall>i<length scaled. size_error outerRect (scaled ! k) \<le> size_error outerRect (scaled ! i)"
    by blast
  from k(3) assms(2) have "size_error outerRect (scaled ! k) \<le> size_error outerRect (scaled ! j)"
    by blast
  also have "size_error outerRect (scaled ! j) = 0"
    using assms(3) by (simp add: size_error_zero_iff)
  finally have "size_error outerRect (scaled ! k) = 0"
    using size_error_nonneg [of outerRect "scaled ! k"] by simp
  then have "scaled ! k = scaled ! j"
    using assms(3) by (simp add: size_error_zero_iff)
  with assms(1,2) k(2) have "k = j" by (simp add: nth_eq_iff_index_eq)
  with k(1) show ?thesis by simp
qed

lemma step_back:
  assumes "k < n"
  shows "nat ((int (nat ((int k + d) mod int n)) - d) mod int n) = k"
proof -
  have n: "0 < int n" using assms by simp
  then have "0 \<le> (int k + d) mod int n" by (rule pos_mod_sign)
  then have "int (nat ((int k + d) mod int n)) = (int k + d) mod int n" by simp
  then have "(int (nat ((int k + d) mod int n)) - d) mod int n = ((int k + d) mod int n - d) mod int n"
    by simp
  also have "\<dots> = (int k + d - d) mod int n" by (rule mod_diff_left_eq)
  also have "\<dots> = int k" using assms by simp
  finally show ?thesis by simp
qed

lemma cycle_result:
  assumes "scaled \<noteq> []"
  shows "\<exists>k c. nearestIndex scaled outerRect = Some k \<and> k < length scaled \<and> c \<in> set scaled
           \<and> c = scaled ! nat ((int k + (if backwards then - 1 else 1)) mod int (length scaled))
           \<and> cycle scaled outerRect workArea backwards =
               Inr \<lparr>rect_x = push_onscreen (rect_x outerRect) (fst c) (rect_x workArea) (rect_width workArea),
                    rect_y = push_onscreen (rect_y outerRect) (snd c) (rect_y workArea) (rect_height workArea),
                    rect_width = fst c, rect_height = snd c\<rparr>"
proof -
  from nearestIndex_least_argmin [OF assms, of outerRect] obtain k where
    k: "nearestIndex scaled outerRect = Some k" "k < length scaled" by blast
  define j where "j = nat ((int k + (if backwards then - 1 else 1)) mod int (length scaled))"
  have n: "0 < int (length scaled)" using assms by simp
  then have "(int k + (if backwards then - 1 else 1)) mod int (length scaled) < int (length scaled)"
    by (rule pos_mod_bound)
  moreover have "0 \<le> (int k + (if backwards then - 1 else 1)) mod int (length scaled)"
    using n by (rule pos_mod_sign)
  ultimately have "j < length scaled" by (simp add: j_def)
  then have "scaled ! j \<in> set scaled" by simp
  moreover have "cycle scaled outerRect workArea backwards =
               Inr \<lparr>rect_x = push_onscreen (rect_x outerRect) (fst (scaled ! j)) (rect_x workArea) (rect_width workArea),
                    rect_y = push_onscreen (rect_y outerRect) (snd (scaled ! j)) (rect_y workArea) (rect_height workArea),
                    rect_width = fst (scaled ! j), rect_height = snd (scaled ! j)\<rparr>"
    unfolding cycle_nonempty [OF k] j_def by (simp split: prod.splits)
  ultimately show ?thesis using k unfolding j_def by blast
qed

text \<open>
  Claim C1. On a non-empty list of pairwise distinct candidates, a cycle step followed by
  a step in the opposite direction, taken from a frame that has the size the first step
  asked for, selects the candidate the first step started from: the second search lands
  exactly on the size that was set (error 0, and no other candidate has it), and the
  opposite advance undoes the first one.
\<close>

theorem cycle_then_opposite_returns:
  assumes "scaled \<noteq> []" and "distinct scaled"
    and "cycle scaled outerRect workArea backwards = Inr new"
    and "rect_width outerRect' = rect_width new" and "rect_height outerRect' = rect_height new"
  shows "\<exists>k j back.
           nearestIndex scaled outerRect = Some k \<and> k < length scaled
         \<and> nearestIndex scaled outerRect' = Some j \<and> j < length scaled
         \<and> scaled ! j = (rect_width new, rect_height new)
         \<and> cycle scaled outerRect' workArea' (\<not> backwards) = Inr back
         \<and> (rect_width back, rect_height back) = scaled ! k"
proof -
  define d :: int where "d = (if backwards then - 1 else 1)"
  have d': "(if \<not> backwards then - 1 else 1) = - d" by (simp add: d_def)
  from cycle_result [OF assms(1), of outerRect backwards workArea] obtain k where
    k: "nearestIndex scaled outerRect = Some k" "k < length scaled"
    and first: "cycle scaled outerRect workArea backwards =
       Inr \<lparr>rect_x = push_onscreen (rect_x outerRect) (fst (scaled ! nat ((int k + d) mod int (length scaled))))
                      (rect_x workArea) (rect_width workArea),
            rect_y = push_onscreen (rect_y outerRect) (snd (scaled ! nat ((int k + d) mod int (length scaled))))
                      (rect_y workArea) (rect_height workArea),
            rect_width = fst (scaled ! nat ((int k + d) mod int (length scaled))),
            rect_height = snd (scaled ! nat ((int k + d) mod int (length scaled)))\<rparr>"
    unfolding d_def by blast
  define j where "j = nat ((int k + d) mod int (length scaled))"
  have n: "0 < int (length scaled)" using assms(1) by simp
  have "(int k + d) mod int (length scaled) < int (length scaled)" using n by (rule pos_mod_bound)
  moreover have "0 \<le> (int k + d) mod int (length scaled)" using n by (rule pos_mod_sign)
  ultimately have j: "j < length scaled" by (simp add: j_def)
  from first assms(3) have new: "rect_width new = fst (scaled ! j)" "rect_height new = snd (scaled ! j)"
    by (auto simp: j_def)
  then have at_j: "scaled ! j = (rect_width outerRect', rect_height outerRect')"
    using assms(4,5) by simp
  have anchor: "nearestIndex scaled outerRect' = Some j"
    using assms(2) j at_j by (rule nearestIndex_exact)
  have "cycle scaled outerRect' workArea' (\<not> backwards) =
          (case scaled ! nat ((int j + (if \<not> backwards then - 1 else 1)) mod int (length scaled)) of
              (newWidth, newHeight) \<Rightarrow>
                Inr \<lparr>rect_x = push_onscreen (rect_x outerRect') newWidth (rect_x workArea') (rect_width workArea'),
                     rect_y = push_onscreen (rect_y outerRect') newHeight (rect_y workArea') (rect_height workArea'),
                     rect_width = newWidth, rect_height = newHeight\<rparr>)"
    using anchor j by (rule cycle_nonempty)
  moreover have "nat ((int j + (if \<not> backwards then - 1 else 1)) mod int (length scaled)) = k"
    unfolding d' j_def using step_back [OF k(2), of d] by simp
  ultimately have "\<exists>back. cycle scaled outerRect' workArea' (\<not> backwards) = Inr back
         \<and> (rect_width back, rect_height back) = scaled ! k"
    by (simp split: prod.splits)
  with k anchor j at_j assms(4,5) show ?thesis by auto
qed

text \<open>
  From 1300 by 700 the nearest candidate is 1280 by 720 (index 0); backward gives 1600 by
  900, and forward from there gives 1280 by 720 again.
\<close>

theorem cycle_then_opposite_returns_witness:
  "SIZES \<noteq> [] \<and> distinct SIZES
   \<and> cycle SIZES \<lparr>rect_x = 50, rect_y = 60, rect_width = 1300, rect_height = 700\<rparr>
        \<lparr>rect_x = 0, rect_y = 0, rect_width = 2000, rect_height = 1200\<rparr> True
      = Inr \<lparr>rect_x = 50, rect_y = 60, rect_width = 1600, rect_height = 900\<rparr>
   \<and> nearestIndex SIZES \<lparr>rect_x = 50, rect_y = 60, rect_width = 1300, rect_height = 700\<rparr> = Some 0
   \<and> (\<exists>back. cycle SIZES \<lparr>rect_x = 50, rect_y = 60, rect_width = 1600, rect_height = 900\<rparr>
        \<lparr>rect_x = 0, rect_y = 0, rect_width = 2000, rect_height = 1200\<rparr> False = Inr back
        \<and> (rect_width back, rect_height back) = (1280, 720))"
proof -
  let ?r = "\<lparr>rect_x = 50, rect_y = 60, rect_width = 1300, rect_height = 700\<rparr>"
  let ?wa = "\<lparr>rect_x = 0, rect_y = 0, rect_width = 2000, rect_height = 1200\<rparr>"
  let ?new = "\<lparr>rect_x = 50, rect_y = 60, rect_width = 1600, rect_height = 900\<rparr>"
  have ne: "SIZES \<noteq> []" and di: "distinct SIZES" by (simp_all add: SIZES_def)
  have k: "nearestIndex SIZES ?r = Some 0"
    by (simp add: nearestIndex_def SIZES_def nearest_loop.simps size_error_def)
  have run: "cycle SIZES ?r ?wa True = Inr ?new"
    by (simp add: cycle_def newIndex_def k js_step_def js_rem_def js_at_def)
       (simp add: SIZES_def push_onscreen_def)
  from cycle_then_opposite_returns [OF ne di run, of ?new ?wa] k
  have "\<exists>back. cycle SIZES ?new ?wa (\<not> True) = Inr back
        \<and> (rect_width back, rect_height back) = SIZES ! 0"
    by auto
  then have "\<exists>back. cycle SIZES ?new ?wa False = Inr back
        \<and> (rect_width back, rect_height back) = (1280, 720)"
    by (simp add: SIZES_def)
  with ne di run k show ?thesis by blast
qed

section \<open>Pushing the window back on screen\<close>

lemma scale_sizes_fit:
  assumes "c \<in> set (scale_sizes sizes scaleFactor workArea)"
  shows "fst c \<le> rect_width workArea \<and> snd c \<le> rect_height workArea"
  using assms by (auto simp: scale_sizes_def)

lemma push_onscreen_far_edge:
  assumes "newExtent \<le> areaExtent"
  shows "push_onscreen pos newExtent areaPos areaExtent + newExtent \<le> areaPos + areaExtent"
  using assms by (simp add: push_onscreen_def max_def)

text \<open>
  A window that hangs over the left edge of the work area (\<open>x = -100\<close>) and is given a
  size that fits at that position keeps its \<open>x\<close>: lines 106-109 only look at the far
  edges.
\<close>

theorem clamp_never_left_of_origin_counterexample:
  "cycle (scaledSizes 1 \<lparr>rect_x = 0, rect_y = 0, rect_width = 2000, rect_height = 1200\<rparr>)
      \<lparr>rect_x = - 100, rect_y = 50, rect_width = 1280, rect_height = 720\<rparr>
      \<lparr>rect_x = 0, rect_y = 0, rect_width = 2000, rect_height = 1200\<rparr> False
     = Inr \<lparr>rect_x = - 100, rect_y = 50, rect_width = 1280, rect_height = 900\<rparr>
   \<and> push_onscreen (- 100) 1280 0 2000 < 0"
  by (simp add: cycle_def newIndex_def nearestIndex_def nearest_loop.simps
        size_error_def js_step_def js_rem_def js_at_def push_onscreen_def
        scaledSizes_def scale_sizes_def SIZES_def)

text \<open>
  Claim C5, amended. The clamping step gives a position left of (above) the origin of the
  work area only if the window already was there, and then leaves that coordinate as it
  was; a window whose corner is at or beyond the origin stays so. Whenever the new size
  fits at the current position on an axis, that coordinate is unchanged.
\<close>

theorem clamp_keeps_or_pushes:
  assumes "cycle scaled outerRect workArea backwards = Inr new"
  shows "(rect_x workArea \<le> rect_x outerRect \<longrightarrow> rect_x workArea \<le> rect_x new)
       \<and> (rect_y workArea \<le> rect_y outerRect \<longrightarrow> rect_y workArea \<le> rect_y new)
       \<and> (rect_x new < rect_x workArea \<longrightarrow> rect_x new = rect_x outerRect)
       \<and> (rect_y new < rect_y workArea \<longrightarrow> rect_y new = rect_y outerRect)
       \<and> (rect_x outerRect + rect_width new \<le> rect_x workArea + rect_width workArea
            \<longrightarrow> rect_x new = rect_x outerRect)
       \<and> (rect_y outerRect + rect_height new \<le> rect_y workArea + rect_height workArea
            \<longrightarrow> rect_y new = rect_y outerRect)"
proof -
  from assms obtain newWidth newHeight where
    new: "new = \<lparr>rect_x = push_onscreen (rect_x outerRect) newWidth (rect_x workArea) (rect_width workArea),
                 rect_y = push_onscreen (rect_y outerRect) newHeight (rect_y workArea) (rect_height workArea),
                 rect_width = newWidth, rect_height = newHeight\<rparr>"
    by (auto simp: cycle_def split: option.splits)
  have axis: "(areaPos \<le> pos \<longrightarrow> areaPos \<le> push_onscreen pos ext areaPos areaExt)
      \<and> (push_onscreen pos ext areaPos areaExt < areaPos \<longrightarrow> push_onscreen pos ext areaPos areaExt = pos)
      \<and> (pos + ext \<le> areaPos + areaExt \<longrightarrow> push_onscreen pos ext areaPos areaExt = pos)"
    for pos ext areaPos areaExt
    by (simp add: push_onscreen_def max_def)
  from axis [of "rect_x workArea" "rect_x outerRect" newWidth "rect_width workArea"]
       axis [of "rect_y workArea" "rect_y outerRect" newHeight "rect_height workArea"]
  show ?thesis unfolding new by simp
qed

text \<open>
  At \<open>x = 900\<close> the new width 1280 would reach 2180, so the window is moved to 720; at
  \<open>y = 20\<close> the new height fits and \<open>y\<close> is kept.
\<close>

theorem clamp_keeps_or_pushes_witness:
  "cycle SIZES \<lparr>rect_x = 900, rect_y = 20, rect_width = 1280, rect_height = 720\<rparr>
      \<lparr>rect_x = 0, rect_y = 0, rect_width = 2000, rect_height = 1200\<rparr> False
     = Inr \<lparr>rect_x = 720, rect_y = 20, rect_width = 1280, rect_height = 900\<rparr>
   \<and> (0::int) \<le> 900 \<and> (0::int) \<le> 720 \<and> (20::int) + 900 \<le> 0 + 1200"
proof -
  let ?r = "\<lparr>rect_x = 900, rect_y = 20, rect_width = 1280, rect_height = 720\<rparr>"
  let ?wa = "\<lparr>rect_x = 0, rect_y = 0, rect_width = 2000, rect_height = 1200\<rparr>"
  let ?new = "\<lparr>rect_x = 720, rect_y = 20, rect_width = 1280, rect_height = 900\<rparr>"
  have run: "cycle SIZES ?r ?wa False = Inr ?new"
    by (simp add: cycle_def newIndex_def nearestIndex_def nearest_loop.simps
        size_error_def js_step_def js_rem_def js_at_def push_onscreen_def SIZES_def)
  from clamp_keeps_or_pushes [OF run] have "rect_x ?wa \<le> rect_x ?new" "rect_y ?new = rect_y ?r"
    by simp_all
  with run show ?thesis by simp
qed

text \<open>
  Claim C9. Whenever some scaled size fits the work area, the handler returns normally and
  the frame it asks for is no wider and no higher than the work area, and its right and
  bottom edges lie within the work area (whatever the current position is, so also when
  it is at or beyond the origin of the work area).
\<close>

theorem requested_frame_fits_far_edges:
  assumes "scaledSizes scaleFactor workArea \<noteq> []"
  shows "\<exists>newX newY newWidth newHeight.
           cycleWindowSizes backwards maximized workArea outerRect scaleFactor =
             ((if maximized \<noteq> 0 then [Unmaximize] else [])
                @ [Connect_size_changed, Move_resize_frame True newX newY newWidth newHeight], Inr ())
           \<and> newWidth \<le> rect_width workArea \<and> newHeight \<le> rect_height workArea
           \<and> newX + newWidth \<le> rect_x workArea + rect_width workArea
           \<and> newY + newHeight \<le> rect_y workArea + rect_height workArea"
proof -
  from cycle_result [OF assms, of outerRect backwards workArea] obtain c where
    c: "c \<in> set (scaledSizes scaleFactor workArea)"
    "cycle (scaledSizes scaleFactor workArea) outerRect workArea backwards =
               Inr \<lparr>rect_x = push_onscreen (rect_x outerRect) (fst c) (rect_x workArea) (rect_width workArea),
                    rect_y = push_onscreen (rect_y outerRect) (snd c) (rect_y workArea) (rect_height workArea),
                    rect_width = fst c, rect_height = snd c\<rparr>"
    by blast
  from c(1) have fit: "fst c \<le> rect_width workArea" "snd c \<le> rect_height workArea"
    using scale_sizes_fit [of c SIZES scaleFactor workArea] by (simp_all add: scaledSizes_def)
  have "cycleWindowSizes backwards maximized workArea outerRect scaleFactor =
             ((if maximized \<noteq> 0 then [Unmaximize] else [])
                @ [Connect_size_changed,
                   Move_resize_frame True
                     (push_onscreen (rect_x outerRect) (fst c) (rect_x workArea) (rect_width workArea))
                     (push_onscreen (rect_y outerRect) (snd c) (rect_y workArea) (rect_height workArea))
                     (fst c) (snd c)], Inr ())"
    by (simp add: cycleWindowSizes_def c(2))
  with fit push_onscreen_far_edge [OF fit(1)] push_onscreen_far_edge [OF fit(2)]
  show ?thesis by blast
qed

text \<open>
  A work area of 1500 by 1000 at (0, 32): the frame asked for ends at 220 + 1280 = 1500 and
  132 + 900 = 1032.
\<close>

theorem requested_frame_fits_far_edges_witness:
  "scaledSizes 1 \<lparr>rect_x = 0, rect_y = 32, rect_width = 1500, rect_height = 1000\<rparr> \<noteq> []
   \<and> cycleWindowSizes False 0 \<lparr>rect_x = 0, rect_y = 32, rect_width = 1500, rect_height = 1000\<rparr>
         \<lparr>rect_x = 400, rect_y = 300, rect_width = 1280, rect_height = 720\<rparr> 1
       = ([Connect_size_changed, Move_resize_frame True 220 132 1280 900], Inr ())"
proof -
  let ?wa = "\<lparr>rect_x = 0, rect_y = 32, rect_width = 1500, rect_height = 1000\<rparr>"
  let ?r = "\<lparr>rect_x = 400, rect_y = 300, rect_width = 1280, rect_height = 720\<rparr>"
  have ne: "scaledSizes 1 ?wa \<noteq> []"
    by (simp add: scaledSizes_def scale_sizes_def SIZES_def)
  have run: "cycleWindowSizes False 0 ?wa ?r 1 = ([Connect_size_changed, Move_resize_frame True 220 132 1280 900], Inr ())"
    by (simp add: cycleWindowSizes_def cycle_def newIndex_def nearestIndex_def nearest_loop.simps
        size_error_def js_step_def js_rem_def js_at_def push_onscreen_def
        scaledSizes_def scale_sizes_def SIZES_def)
  from requested_frame_fits_far_edges [OF ne, of False 0 ?r] run ne
  show ?thesis by simp
qed

section \<open>No size fits the work area\<close>

text \<open>
  With a scale factor of 2 no size fits a work area of 1000 by 800. A maximized window
  has been unmaximized by lines 73-74 before line 101 throws.
\<close>

theorem empty_candidates_unmaximize_counterexample:
  "scaledSizes 2 \<lparr>rect_x = 0, rect_y = 0, rect_width = 1000, rect_height = 800\<rparr> = []
   \<and> cycleWindowSizes False 3 \<lparr>rect_x = 0, rect_y = 0, rect_width = 1000, rect_height = 800\<rparr>
        \<lparr>rect_x = 0, rect_y = 0, rect_width = 1000, rect_height = 800\<rparr> 2
      = ([Unmaximize], Inl TypeError)"
  by (simp add: cycleWindowSizes_def cycle_def newIndex_def nearestIndex_def nearest_loop.simps
        js_step_def js_rem_def js_at_def scaledSizes_def scale_sizes_def SIZES_def)

text \<open>
  Claim C2, amended. When no scaled size fits the work area, the handler ends with the
  \<^verbatim>\<open>TypeError\<close> of line 101: it has registered no \<^verbatim>\<open>size-changed\<close> listener (so it shows
  no notification) and has asked for no move or resize. A window that was not maximized
  is left untouched; a maximized one has been unmaximized before.
\<close>

theorem empty_candidates_abort:
  assumes "scaledSizes scaleFactor workArea = []"
  shows "cycleWindowSizes backwards maximized workArea outerRect scaleFactor =
           ((if maximized \<noteq> 0 then [Unmaximize] else []), Inl TypeError)"
  by (simp add: cycleWindowSizes_def assms cycle_empty)

text \<open>The same work area with a window that is not maximized: no host call at all.\<close>

theorem empty_candidates_abort_witness:
  "scaledSizes 2 \<lparr>rect_x = 0, rect_y = 0, rect_width = 1000, rect_height = 800\<rparr> = []
   \<and> cycleWindowSizes True 0 \<lparr>rect_x = 0, rect_y = 0, rect_width = 1000, rect_height = 800\<rparr>
        \<lparr>rect_x = 10, rect_y = 10, rect_width = 640, rect_height = 480\<rparr> 2
      = ([], Inl TypeError)"
proof -
  have e: "scaledSizes 2 \<lparr>rect_x = 0, rect_y = 0, rect_width = 1000, rect_height = 800\<rparr> = []"
    by (simp add: scaledSizes_def scale_sizes_def SIZES_def)
  from empty_candidates_abort [OF e, of True 0 "\<lparr>rect_x = 10, rect_y = 10, rect_width = 640, rect_height = 480\<rparr>"] e
  show ?thesis by simp
qed

section \<open>Centring is exact\<close>

text \<open>
  Claim C6. The centre handler asks for the position
  \<open>workArea.x + (workArea.width - outerRect.width) / 2\<close> (and likewise vertically)
  with the width and height of the window as they are, whatever the sizes: nothing is
  clamped. The middle of the window at that position is the middle of the work area.
\<close>

theorem center_exact:
  "centerWindow maximized workArea outerRect =
     (if maximized \<noteq> 0 then [Unmaximize] else [])
       @ [Connect_size_changed,
          Move_resize_frame True
            (of_int (rect_x workArea) + (of_int (rect_width workArea) - of_int (rect_width outerRect)) / 2)
            (of_int (rect_y workArea) + (of_int (rect_height workArea) - of_int (rect_height outerRect)) / 2)
            (of_int (rect_width outerRect)) (of_int (rect_height outerRect))]
   \<and> fst (center outerRect workArea) + of_int (rect_width outerRect) / 2
       = of_int (rect_x workArea) + of_int (rect_width workArea) / 2
   \<and> snd (center outerRect workArea) + of_int (rect_height outerRect) / 2
       = of_int (rect_y workArea) + of_int (rect_height workArea) / 2"
  by (simp add: centerWindow_def center_def field_simps)

text \<open>A maximized window wider than its work area: the position asked for is negative.\<close>

theorem center_exact_witness:
  "centerWindow 3 \<lparr>rect_x = 0, rect_y = 32, rect_width = 1920, rect_height = 1048\<rparr>
      \<lparr>rect_x = 7, rect_y = 9, rect_width = 2201, rect_height = 900\<rparr>
     = [Unmaximize, Connect_size_changed, Move_resize_frame True (- 281 / 2) 106 2201 900]"
  using center_exact [of 3 "\<lparr>rect_x = 0, rect_y = 32, rect_width = 1920, rect_height = 1048\<rparr>"
      "\<lparr>rect_x = 7, rect_y = 9, rect_width = 2201, rect_height = 900\<rparr>"]
  by simp

section \<open>The ratio test of the notification\<close>

text \<open>
  The exponent is the one of the binade of \<open>q\<close>, the rounding of the significand is off
  by at most one half, and so the rounded value is off by at most \<open>|q| / 2^53\<close>.
\<close>

lemma exponent_of_le:
  assumes "0 < q"
  shows "2 powi (exponent_of q) \<le> q"
proof (cases "1 \<le> q")
  case True
  define n where "n = nat \<lfloor>q\<rfloor>"
  from True have n: "0 < n" by (simp add: n_def)
  have fl: "0 < floorlog 2 n" using floorlog_eq_zero_iff [of 2 n] n by auto
  from floorlog_bounds [of n 2] n have "2 ^ (floorlog 2 n - 1) \<le> n" by simp
  then have "(2::rat) ^ (floorlog 2 n - 1) \<le> of_nat n"
    by (metis of_nat_le_iff of_nat_numeral of_nat_power)
  also have "(of_nat n :: rat) = of_int \<lfloor>q\<rfloor>" using True by (simp add: n_def)
  also have "\<dots> \<le> q" by simp
  finally have "(2::rat) ^ (floorlog 2 n - 1) \<le> q" .
  moreover have "exponent_of q = int (floorlog 2 n - 1)"
    using True fl by (simp add: exponent_of_def n_def)
  ultimately show ?thesis by simp
next
  case False
  define m where "m = \<lceil>1 / q\<rceil>"
  define n where "n = nat (m - 1)"
  from False assms have "1 < 1 / q" by simp
  then have m: "2 \<le> m" unfolding m_def by linarith
  then have n: "0 < n" "int n = m - 1" by (simp_all add: n_def)
  from floorlog_bounds [of n 2] n have "n < 2 ^ floorlog 2 n" by simp
  then have "int n < 2 ^ floorlog 2 n"
    by (metis of_nat_less_iff of_nat_numeral of_nat_power)
  with n(2) have "m \<le> 2 ^ floorlog 2 n" by simp
  then have up: "(of_int m :: rat) \<le> 2 ^ floorlog 2 n"
    by (metis of_int_le_iff of_int_numeral of_int_power)
  have "1 / q \<le> of_int m" unfolding m_def by simp
  from this up have "1 / q \<le> 2 ^ floorlog 2 n" by (rule order_trans)
  then have "1 / 2 ^ floorlog 2 n \<le> q"
    using assms by (simp add: field_simps)
  then have "1 / 2 ^ floorlog 2 n \<le> q" .
  moreover have "exponent_of q = - int (floorlog 2 n)"
    using False by (simp add: exponent_of_def n_def m_def)
  ultimately show ?thesis by (simp add: power_int_minus_divide)
qed

lemma exponent_of_less:
  assumes "0 < q"
  shows "q < 2 powi (exponent_of q + 1)"
proof (cases "1 \<le> q")
  case True
  define n where "n = nat \<lfloor>q\<rfloor>"
  from True have n: "0 < n" "int n = \<lfloor>q\<rfloor>" by (simp_all add: n_def)
  have fl: "0 < floorlog 2 n" using floorlog_eq_zero_iff [of 2 n] n by auto
  from floorlog_bounds [of n 2] n have "n < 2 ^ floorlog 2 n" by simp
  then have "int n < 2 ^ floorlog 2 n"
    by (metis of_nat_less_iff of_nat_numeral of_nat_power)
  with n(2) have "\<lfloor>q\<rfloor> + 1 \<le> 2 ^ floorlog 2 n" by simp
  then have "(of_int (\<lfloor>q\<rfloor> + 1) :: rat) \<le> of_int (2 ^ floorlog 2 n)"
    by (simp only: of_int_le_iff)
  then have up: "(of_int \<lfloor>q\<rfloor> :: rat) + 1 \<le> 2 ^ floorlog 2 n" by simp
  have "q < of_int \<lfloor>q\<rfloor> + 1" by linarith
  from this up have "q < 2 ^ floorlog 2 n" by (rule less_le_trans)
  moreover have "exponent_of q + 1 = int (floorlog 2 n)"
    using True by (simp add: exponent_of_def n_def)
  ultimately show ?thesis by simp
next
  case False
  define m where "m = \<lceil>1 / q\<rceil>"
  define n where "n = nat (m - 1)"
  from False assms have "1 < 1 / q" by simp
  then have m: "2 \<le> m" unfolding m_def by linarith
  then have n: "0 < n" "int n = m - 1" by (simp_all add: n_def)
  have fl: "0 < floorlog 2 n" using floorlog_eq_zero_iff [of 2 n] n by auto
  from floorlog_bounds [of n 2] n have "2 ^ (floorlog 2 n - 1) \<le> n" by simp
  then have "2 ^ (floorlog 2 n - 1) \<le> int n"
    by (metis of_nat_le_iff of_nat_numeral of_nat_power)
  with n(2) have "(of_int (2 ^ (floorlog 2 n - 1)) :: rat) \<le> of_int (m - 1)"
    by (simp only: of_int_le_iff)
  then have low: "(2::rat) ^ (floorlog 2 n - 1) \<le> of_int m - 1" by simp
  have "of_int m - 1 < 1 / q" unfolding m_def by linarith
  with low have "(2::rat) ^ (floorlog 2 n - 1) < 1 / q" by (rule le_less_trans)
  then have "q * 2 ^ (floorlog 2 n - 1) < 1"
    using assms by (simp add: field_simps)
  then have "q < 1 / 2 ^ (floorlog 2 n - 1)"
    by (simp add: field_simps)
  moreover have "exponent_of q + 1 = - int (floorlog 2 n - 1)"
    using False fl by (simp add: exponent_of_def n_def m_def)
  ultimately show ?thesis by (simp add: power_int_minus_divide)
qed

lemma round_half_even_err: "\<bar>of_int (round_half_even q) - q\<bar> \<le> 1 / 2"
proof -
  have "of_int \<lfloor>q\<rfloor> \<le> q" "q < of_int \<lfloor>q\<rfloor> + 1" by linarith+
  then show ?thesis by (auto simp: round_half_even_def Let_def)
qed

lemma to_double_rel_err: "\<bar>to_double q - q\<bar> \<le> \<bar>q\<bar> / 2 ^ 53"
proof (cases "q = 0")
  case True
  then show ?thesis by (simp add: to_double_def)
next
  case False
  define e where "e = exponent_of \<bar>q\<bar>"
  define ulp :: rat where "ulp = 2 powi (e - 52)"
  define R where "R = round_half_even (\<bar>q\<bar> / ulp)"
  have ulp: "0 < ulp" by (simp add: ulp_def)
  have "ulp = 2 powi e / 2 ^ 52" by (simp add: ulp_def power_int_diff)
  moreover have "2 powi e \<le> \<bar>q\<bar>" unfolding e_def using False by (intro exponent_of_le) simp
  ultimately have ulp_le: "ulp \<le> \<bar>q\<bar> / 2 ^ 52" by (simp add: divide_right_mono)
  have td: "to_double q = sgn q * of_int R * ulp"
    using False by (simp add: to_double_def Let_def e_def ulp_def R_def)
  have "q = sgn q * \<bar>q\<bar>" by (simp add: sgn_mult_abs)
  then have "to_double q - q = sgn q * (of_int R * ulp - \<bar>q\<bar>)"
    unfolding td by (metis mult.assoc right_diff_distrib)
  then have "\<bar>to_double q - q\<bar> = \<bar>of_int R * ulp - \<bar>q\<bar>\<bar>"
    using False by (simp add: abs_mult abs_sgn_eq)
  also have "of_int R * ulp - \<bar>q\<bar> = (of_int R - \<bar>q\<bar> / ulp) * ulp"
    using ulp by (simp add: field_simps)
  also have "\<bar>\<dots>\<bar> = \<bar>of_int R - \<bar>q\<bar> / ulp\<bar> * ulp"
    using ulp by (simp add: abs_mult)
  also have "\<dots> \<le> 1 / 2 * ulp"
    using round_half_even_err [of "\<bar>q\<bar> / ulp"] ulp unfolding R_def
    by (intro mult_right_mono) simp_all
  also have "\<dots> \<le> 1 / 2 * (\<bar>q\<bar> / 2 ^ 52)"
    using ulp_le by simp
  finally show ?thesis by simp
qed


lemma double_hundredth: "to_double (1 / 100) = 5764607523034235 / 576460752303423488"
  by code_simp

lemma ratio_test_at_1601: "to_double (1 / 100) < \<bar>to_double (to_double (1601 / 100) - 16)\<bar>"
  by code_simp

lemma ratio_test_at_1599: "\<not> to_double (1 / 100) < \<bar>to_double (to_double (1599 / 100) - 16)\<bar>"
  by code_simp

lemma ratio_test_far:
  assumes "0 < x" and "1 / 100 + 1 / (100 * 2 ^ 31) \<le> \<bar>x - 16\<bar>"
  shows "to_double (1 / 100) < \<bar>to_double (to_double x - 16)\<bar>"
proof -
  define x1 where "x1 = to_double x"
  define d1 where "d1 = to_double (x1 - 16)"
  have e1: "\<bar>x1 - x\<bar> \<le> x / 9007199254740992"
    using to_double_rel_err [of x] assms(1) by (simp add: x1_def)
  have e2: "\<bar>d1 - (x1 - 16)\<bar> \<le> \<bar>x1 - 16\<bar> / 9007199254740992"
    using to_double_rel_err [of "x1 - 16"] by (simp add: d1_def)
  from assms(2) have t: "1 / 100 + 1 / 214748364800 \<le> \<bar>x - 16\<bar>" by simp
  have "5764607523034235 / 576460752303423488 < \<bar>d1\<bar>"
    using e1 e2 t assms(1) by (auto simp: abs_if split: if_splits)
  then show ?thesis by (simp add: double_hundredth d1_def x1_def)
qed

lemma ratio_test_near:
  assumes "0 < x" and "\<bar>x - 16\<bar> \<le> 1 / 100 - 1 / (100 * 2 ^ 31)"
  shows "\<not> to_double (1 / 100) < \<bar>to_double (to_double x - 16)\<bar>"
proof -
  define x1 where "x1 = to_double x"
  define d1 where "d1 = to_double (x1 - 16)"
  have e1: "\<bar>x1 - x\<bar> \<le> x / 9007199254740992"
    using to_double_rel_err [of x] assms(1) by (simp add: x1_def)
  have e2: "\<bar>d1 - (x1 - 16)\<bar> \<le> \<bar>x1 - 16\<bar> / 9007199254740992"
    using to_double_rel_err [of "x1 - 16"] by (simp add: d1_def)
  from assms(2) have t: "\<bar>x - 16\<bar> \<le> 1 / 100 - 1 / 214748364800" by simp
  have "\<bar>d1\<bar> \<le> 5764607523034235 / 576460752303423488"
    using e1 e2 t assms(1) by (auto simp: abs_if split: if_splits)
  then show ?thesis by (simp add: double_hundredth d1_def x1_def)
qed


lemma to_double_1601: "to_double (1601 / 100) = 4506414377137603 / 281474976710656"
  by code_simp

lemma suffix_test:
  assumes "rect_height r \<noteq> 0"
  shows "snd (notifySizeChange scaleFactor r) =
           (if to_double (1 / 100)
                 < \<bar>to_double (to_double (of_int (9 * rect_width r) / of_int (rect_height r)) - 16)\<bar>
            then Some (Finite (to_double (of_int (9 * rect_width r) / of_int (rect_height r))))
            else None)"
  using assms by (simp add: notifySizeChange_def js_div_def js_sub_def js_abs_def js_greater_def)


lemma far_bound:
  fixes h T :: int
  assumes "0 < h" "h < 2147483648" "h < 100 * T"
  shows "1 / 100 + 1 / (100 * 2 ^ 31) \<le> (of_int T :: rat) / of_int h"
proof -
  have hq: "(0::rat) < of_int h" "(of_int h :: rat) < 2147483648" using assms by simp_all
  from assms(3) have "h + 1 \<le> 100 * T" by simp
  then have "(of_int (h + 1) :: rat) \<le> of_int (100 * T)" by (simp only: of_int_le_iff)
  then have "(of_int h :: rat) + 1 \<le> 100 * of_int T" by simp
  with hq have "(1 / 100 + 1 / 214748364800) * (of_int h :: rat) \<le> of_int T"
    by (simp add: algebra_simps)
  then have "1 / 100 + 1 / 214748364800 \<le> (of_int T :: rat) / of_int h"
    using hq(1) by (simp only: pos_le_divide_eq)
  then show ?thesis by simp
qed

lemma near_bound:
  fixes h T :: int
  assumes "0 < h" "h < 2147483648" "100 * T < h"
  shows "(of_int T :: rat) / of_int h \<le> 1 / 100 - 1 / (100 * 2 ^ 31)"
proof -
  have hq: "(0::rat) < of_int h" "(of_int h :: rat) < 2147483648" using assms by simp_all
  from assms(3) have "100 * T \<le> h - 1" by simp
  then have "(of_int (100 * T) :: rat) \<le> of_int (h - 1)" by (simp only: of_int_le_iff)
  then have "100 * (of_int T :: rat) \<le> of_int h - 1" by simp
  with hq have "(of_int T :: rat) \<le> (1 / 100 - 1 / 214748364800) * of_int h"
    by (simp add: algebra_simps)
  then have "(of_int T :: rat) / of_int h \<le> 1 / 100 - 1 / 214748364800"
    using hq(1) by (simp only: pos_divide_le_eq)
  then show ?thesis by simp
qed

lemma edge_cases:
  fixes w h :: int
  assumes "0 < h" "100 * \<bar>9 * w - 16 * h\<bar> = h"
  shows "900 * w = 1601 * h \<or> 900 * w = 1599 * h"
  using assms by (cases "0 \<le> 9 * w - 16 * h") simp_all

lemma ratio_at:
  fixes w h :: int
  assumes "0 < h" "900 * w = k * h"
  shows "(of_int (9 * w) :: rat) / of_int h = of_int k / 100"
proof -
  have hq: "(0::rat) < of_int h" using assms by simp
  have "(of_int (900 * w) :: rat) = of_int (k * h)" using assms(2) by simp
  then have "900 * (of_int w :: rat) = of_int k * of_int h" by simp
  then show ?thesis using hq by (simp add: field_simps)
qed


text \<open>
  Claim C7, amended. For a final size of positive 32-bit width and height, the suffix
  with the actual ratio is appended if and only if \<open>|9 * width / height - 16| > 1/100\<close>,
  or \<open>9 * width / height\<close> is exactly \<open>16.01\<close>: the comparison of line 132 is made on
  binary64 values, where \<open>16.01 - 16\<close> comes out larger than \<^verbatim>\<open>0.01\<close>.
\<close>

theorem ratio_suffix_iff:
  assumes "0 < rect_width r" and "rect_width r < 2 ^ 31"
    and "0 < rect_height r" and "rect_height r < 2 ^ 31"
  shows "(snd (notifySizeChange scaleFactor r) \<noteq> None)
           = (1 / 100 < \<bar>9 * of_int (rect_width r) / of_int (rect_height r) - (16::rat)\<bar>
              \<or> 900 * rect_width r = 1601 * rect_height r)"
proof -
  define w where "w = rect_width r"
  define h where "h = rect_height r"
  define x :: rat where "x = of_int (9 * w) / of_int h"
  define T where "T = \<bar>9 * w - 16 * h\<bar>"
  have w: "0 < w" and h: "0 < h" "h < 2147483648" using assms by (simp_all add: w_def h_def)
  have hq: "(0::rat) < of_int h" using h by simp
  have x: "0 < x" using w h by (simp add: x_def)
  have "x - 16 = of_int (9 * w - 16 * h) / of_int h"
    using hq by (simp add: x_def diff_divide_distrib)
  then have "\<bar>x - 16\<bar> = \<bar>of_int (9 * w - 16 * h)\<bar> / \<bar>of_int h\<bar>"
    by (simp only: abs_divide)
  then have t: "\<bar>x - 16\<bar> = of_int T / of_int h"
    using hq by (simp add: T_def)
  have lhs: "(snd (notifySizeChange scaleFactor r) \<noteq> None)
      = (to_double (1 / 100) < \<bar>to_double (to_double x - 16)\<bar>)"
    using h suffix_test [of r scaleFactor] by (simp add: x_def w_def h_def)
  have "9 * of_int (rect_width r) / of_int (rect_height r) - (16::rat) = x - 16"
    by (simp add: x_def w_def h_def)
  then have "(1 / 100 < \<bar>9 * of_int (rect_width r) / of_int (rect_height r) - (16::rat)\<bar>)
      = (1 / 100 < (of_int T :: rat) / of_int h)" by (simp only: t)
  also have "\<dots> = (1 / 100 * (of_int h :: rat) < of_int T)"
    using hq by (simp only: pos_less_divide_eq)
  also have "\<dots> = ((of_int h :: rat) < of_int (100 * T))" by (simp add: mult.commute)
  also have "\<dots> = (h < 100 * T)" by (simp only: of_int_less_iff)
  finally have rhs: "(1 / 100 < \<bar>9 * of_int (rect_width r) / of_int (rect_height r) - (16::rat)\<bar>)
      = (h < 100 * T)" .
  consider (far) "h < 100 * T" | (near) "100 * T < h" | (edge) "100 * T = h" by linarith
  then have "(to_double (1 / 100) < \<bar>to_double (to_double x - 16)\<bar>) = (h < 100 * T \<or> 900 * w = 1601 * h)"
  proof cases
    case far
    from far_bound [OF h far] have "1 / 100 + 1 / (100 * 2 ^ 31) \<le> \<bar>x - 16\<bar>" by (simp only: t)
    from ratio_test_far [OF x this] far show ?thesis by simp
  next
    case near
    from near_bound [OF h near] have "\<bar>x - 16\<bar> \<le> 1 / 100 - 1 / (100 * 2 ^ 31)" by (simp only: t)
    from ratio_test_near [OF x this] have no: "\<not> to_double (1 / 100) < \<bar>to_double (to_double x - 16)\<bar>" .
    have "900 * w \<noteq> 1601 * h"
    proof
      assume "900 * w = 1601 * h"
      then have "100 * (9 * w - 16 * h) = h" by simp
      with h have "100 * T = h" unfolding T_def by (simp add: abs_if)
      with near show False by simp
    qed
    with no near show ?thesis by simp
  next
    case edge
    from edge_cases [OF h(1) edge [unfolded T_def]]
    show ?thesis
    proof
      assume above: "900 * w = 1601 * h"
      from ratio_at [OF h(1) above] have xv: "x = 1601 / 100" by (simp add: x_def)
      from ratio_test_at_1601 above show ?thesis unfolding xv by simp
    next
      assume below: "900 * w = 1599 * h"
      from ratio_at [OF h(1) below] have xv: "x = 1599 / 100" by (simp add: x_def)
      from below h have "900 * w \<noteq> 1601 * h" by simp
      moreover from edge have "\<not> h < 100 * T" by simp
      ultimately show ?thesis unfolding xv using ratio_test_at_1599 by simp
    qed
  qed
  then show ?thesis unfolding lhs rhs by (simp add: w_def h_def)
qed


text \<open>For 1600 by 894 the suffix is appended, for 1600 by 900 it is not.\<close>

theorem ratio_suffix_iff_witness:
  "snd (notifySizeChange 1 \<lparr>rect_x = 0, rect_y = 0, rect_width = 1600, rect_height = 894\<rparr>) \<noteq> None
   \<and> snd (notifySizeChange 1 \<lparr>rect_x = 0, rect_y = 0, rect_width = 1600, rect_height = 900\<rparr>) = None"
  using ratio_suffix_iff [of "\<lparr>rect_x = 0, rect_y = 0, rect_width = 1600, rect_height = 894\<rparr>" 1]
    ratio_suffix_iff [of "\<lparr>rect_x = 0, rect_y = 0, rect_width = 1600, rect_height = 900\<rparr>" 1]
  by simp

text \<open>
  For 1601 by 900 the ratio is exactly 16.01, at distance exactly one hundredth from 16,
  and the suffix is appended all the same.
\<close>

theorem ratio_suffix_boundary_counterexample:
  "snd (notifySizeChange 1 \<lparr>rect_x = 0, rect_y = 0, rect_width = 1601, rect_height = 900\<rparr>)
     = Some (Finite (4506414377137603 / 281474976710656))
   \<and> \<not> 1 / 100 < \<bar>9 * 1601 / 900 - (16::rat)\<bar>"
proof -
  have "(of_int (9 * 1601) :: rat) / of_int 900 = 1601 / 100" by simp
  with suffix_test [of "\<lparr>rect_x = 0, rect_y = 0, rect_width = 1601, rect_height = 900\<rparr>" 1]
    ratio_test_at_1601 to_double_1601
  have "snd (notifySizeChange 1 \<lparr>rect_x = 0, rect_y = 0, rect_width = 1601, rect_height = 900\<rparr>)
     = Some (Finite (4506414377137603 / 281474976710656))" by simp
  then show ?thesis by simp
qed

end
